theory Spec2Isabelle
  imports Complex_Main "HOL-Library.Word"
begin

section \<open>JavaScript values used by the widget\<close>

text \<open>
  A JavaScript string is a sequence of UTF-16 code units; \<open>s.length\<close> counts them and
  \<open>===\<close> on strings compares them one by one. The string literals of the source are
  ASCII, so \<open>lit\<close> maps each character of a literal to the code unit of the same number.
\<close>

type_synonym jschar = "16 word"
type_synonym jsstring = "jschar list"

definition lit :: "string \<Rightarrow> jsstring" where
  "lit s = map (\<lambda>c. of_nat (of_char c)) s"

text \<open>
  A JavaScript number is an IEEE-754 double. The program only compares numbers, tests
  them for truthiness and prints them; it never computes with them. A finite number is
  modelled by its value, a rational (every double is one), with \<open>-0\<close> and \<open>+0\<close>
  identified: they are equal under \<open>===\<close>, \<open><=\<close> and \<open>>=\<close>, both falsy, and both
  print as \<open>0\<close>.
\<close>

datatype jsnum = NaN | PosInf | NegInf | Fin rat

text \<open>The union type \<open>string | number\<close> of \<open>ValidatorConfig.value\<close>.\<close>

datatype jsvalue = Str jsstring | Num jsnum

text \<open>\<open>ToBoolean\<close> on a number: \<open>0\<close> and \<open>NaN\<close> are falsy, every other number is truthy.\<close>

fun truthy :: "jsnum \<Rightarrow> bool" where
  "truthy NaN = False"
| "truthy (Fin r) = (r \<noteq> 0)"
| "truthy PosInf = True"
| "truthy NegInf = True"

text \<open>
  \<open>a <= b\<close> on numbers; \<open>a >= b\<close> is \<open>num_le b a\<close>. A comparison with \<open>NaN\<close> is false.
\<close>

fun num_le :: "jsnum \<Rightarrow> jsnum \<Rightarrow> bool" where
  "num_le NaN b = False"
| "num_le a NaN = False"
| "num_le NegInf b = True"
| "num_le a PosInf = True"
| "num_le PosInf b = False"
| "num_le a NegInf = False"
| "num_le (Fin x) (Fin y) = (x \<le> y)"

text \<open>The number \<open>s.length\<close> of a string.\<close>

definition length_of :: "jsstring \<Rightarrow> jsnum" where
  "length_of s = Fin (of_nat (length s))"

subsection \<open>Number to string\<close>

definition digit_char :: "nat \<Rightarrow> jschar" where
  "digit_char d = of_nat (48 + d)"

fun digits_of :: "nat \<Rightarrow> jsstring" where
  "digits_of n = (if n < 10 then [digit_char n] else digits_of (n div 10) @ [digit_char (n mod 10)])"

declare digits_of.simps [simp del]

text \<open>
  \<open>Number::toString\<close> (radix 10) of ECMAScript, for a positive finite number \<open>x\<close>. Its
  step 5 picks integers \<open>n\<close>, \<open>k\<close>, \<open>s\<close> with \<open>s\<close> of \<open>k\<close> digits, as few as possible, such
  that \<open>s * 10^(n - k)\<close> rounds to \<open>x\<close>. For an integer below \<open>2^53\<close> these are its own
  decimal digits, which the model computes. For every other number they depend on the
  rounding of doubles; the model takes them from the parameter \<open>shortest\<close>, which
  returns \<open>(s, n)\<close>. The steps that lay the digits out are modelled as they are.
\<close>

definition pos_toString :: "(rat \<Rightarrow> nat \<times> int) \<Rightarrow> rat \<Rightarrow> jsstring" where
  "pos_toString shortest x =
     (if of_int \<lfloor>x\<rfloor> = x \<and> x < 2 ^ 53 then digits_of (nat \<lfloor>x\<rfloor>)
      else
        (let (s, n) = shortest x;
             ds = digits_of s;
             k = int (length ds)
         in if k \<le> n \<and> n \<le> 21 then ds @ replicate (nat (n - k)) (digit_char 0)
            else if 0 < n \<and> n \<le> 21 then take (nat n) ds @ lit ''.'' @ drop (nat n) ds
            else if - 6 < n \<and> n \<le> 0 then lit ''0.'' @ replicate (nat (- n)) (digit_char 0) @ ds
            else
              (let e = n - 1;
                   sign = (if e < 0 then lit ''-'' else lit ''+'')
               in if k = 1 then ds @ lit ''e'' @ sign @ digits_of (nat \<bar>e\<bar>)
                  else take 1 ds @ lit ''.'' @ drop 1 ds @ lit ''e'' @ sign @ digits_of (nat \<bar>e\<bar>))))"

fun Number_toString :: "(rat \<Rightarrow> nat \<times> int) \<Rightarrow> jsnum \<Rightarrow> jsstring" where
  "Number_toString shortest NaN = lit ''NaN''"
| "Number_toString shortest PosInf = lit ''Infinity''"
| "Number_toString shortest NegInf = lit ''-Infinity''"
| "Number_toString shortest (Fin x) =
     (if x = 0 then lit ''0''
      else if x < 0 then lit ''-'' @ pos_toString shortest (- x)
      else pos_toString shortest x)"

text \<open>\<open>value.toString()\<close>: a string is returned as it is.\<close>

fun toString :: "(rat \<Rightarrow> nat \<times> int) \<Rightarrow> jsvalue \<Rightarrow> jsstring" where
  "toString shortest (Str s) = s"
| "toString shortest (Num n) = Number_toString shortest n"

subsection \<open>String.prototype.trim\<close>

text \<open>
  The code units \<open>trim\<close> strips: ECMAScript's WhiteSpace (TAB, VT, FF, SP, NBSP, ZWNBSP and
  the Unicode space separators) and LineTerminator (LF, CR, LS, PS).
\<close>

definition is_ws :: "jschar \<Rightarrow> bool" where
  "is_ws c = (c = 0x9 \<or> c = 0xA \<or> c = 0xB \<or> c = 0xC \<or> c = 0xD \<or> c = 0x20 \<or> c = 0xA0
     \<or> c = 0x1680 \<or> (0x2000 \<le> c \<and> c \<le> 0x200A) \<or> c = 0x2028 \<or> c = 0x2029
     \<or> c = 0x202F \<or> c = 0x205F \<or> c = 0x3000 \<or> c = 0xFEFF)"

definition trim :: "jsstring \<Rightarrow> jsstring" where
  "trim s = rev (dropWhile is_ws (rev (dropWhile is_ws s)))"

section \<open>The validator\<close>

text \<open>
  \<^verbatim>\<open>
  interface ValidatorConfig {
    value: string | number;
    required?: boolean;
    minLength?: number;  maxLength?: number;   // for strings
    min?: number;  max?: number;               // for numbers
  }\<close>
  An optional field that is absent (or \<open>undefined\<close>) is \<open>None\<close>. The fields \<open>value\<close>,
  \<open>min\<close> and \<open>max\<close> carry a prime: the plain names are taken in Isabelle.
\<close>

record ValidatorConfig =
  value' :: jsvalue
  required :: "bool option"
  minLength :: "jsnum option"
  maxLength :: "jsnum option"
  min' :: "jsnum option"
  max' :: "jsnum option"

text \<open>
  \<^verbatim>\<open>
  function validate(config: ValidatorConfig): boolean {
    let isValid = true;
    if (config.required) {
      isValid = isValid && config.value.toString().trim().length > 0;
    }
    if (config.minLength && typeof config.value === "string") {
      isValid = isValid && config.value.length >= config.minLength;
    }
    if (config.maxLength && typeof config.value === "string") {
      isValid = isValid && config.value.length <= config.maxLength;
    }
    if (config.min && typeof config.value === "number") {
      isValid = isValid && config.value >= config.min;
    }
    if (config.max && typeof config.value === "number") {
      isValid = isValid && config.value <= config.max;
    }
    return isValid;
  }\<close>
  Each \<open>if\<close> tests its bound for truthiness: an absent bound is falsy, and so are the
  bounds \<open>0\<close> and \<open>NaN\<close>.
\<close>

definition validate :: "(rat \<Rightarrow> nat \<times> int) \<Rightarrow> ValidatorConfig \<Rightarrow> bool" where
  "validate shortest config =
     (let isValid = True;
          isValid = (if required config = Some True
                     then isValid \<and> 0 < length (trim (toString shortest (value' config)))
                     else isValid);
          isValid = (case (minLength config, value' config) of
                       (Some b, Str s) \<Rightarrow> if truthy b then isValid \<and> num_le b (length_of s) else isValid
                     | _ \<Rightarrow> isValid);
          isValid = (case (maxLength config, value' config) of
                       (Some b, Str s) \<Rightarrow> if truthy b then isValid \<and> num_le (length_of s) b else isValid
                     | _ \<Rightarrow> isValid);
          isValid = (case (min' config, value' config) of
                       (Some b, Num v) \<Rightarrow> if truthy b then isValid \<and> num_le b v else isValid
                     | _ \<Rightarrow> isValid);
          isValid = (case (max' config, value' config) of
                       (Some b, Num v) \<Rightarrow> if truthy b then isValid \<and> num_le v b else isValid
                     | _ \<Rightarrow> isValid)
      in isValid)"

text \<open>A configuration with the given value and no constraint.\<close>

definition config_of :: "jsvalue \<Rightarrow> ValidatorConfig" where
  "config_of v = \<lparr>value' = v, required = None, minLength = None, maxLength = None,
     min' = None, max' = None\<rparr>"

text \<open>
  The contract of the validator as the specification words it: every constraint the
  configuration specifies passes. \<open>required\<close> fails on the empty and on the
  whitespace-only string; \<open>minLength\<close> and \<open>maxLength\<close> bind a string value, \<open>min\<close> and
  \<open>max\<close> a numeric one; an absent constraint is skipped.
\<close>

definition blank :: "jsstring \<Rightarrow> bool" where
  "blank s = list_all is_ws s"

definition constraints_pass :: "(rat \<Rightarrow> nat \<times> int) \<Rightarrow> ValidatorConfig \<Rightarrow> bool" where
  "constraints_pass shortest config =
     ((case required config of
         Some True \<Rightarrow> \<not> blank (toString shortest (value' config))
       | _ \<Rightarrow> True)
      \<and> (case (minLength config, value' config) of
           (Some b, Str s) \<Rightarrow> num_le b (length_of s)
         | _ \<Rightarrow> True)
      \<and> (case (maxLength config, value' config) of
           (Some b, Str s) \<Rightarrow> num_le (length_of s) b
         | _ \<Rightarrow> True)
      \<and> (case (min' config, value' config) of
           (Some b, Num v) \<Rightarrow> num_le b v
         | _ \<Rightarrow> True)
      \<and> (case (max' config, value' config) of
           (Some b, Num v) \<Rightarrow> num_le v b
         | _ \<Rightarrow> True))"

section \<open>Projects\<close>

text \<open>
  \<^verbatim>\<open>
  export enum ProjectStatus { ACTIVE = "active", FINISHED = "finished" }
  export class Project {
    constructor(public id: string, public title: string, public description: string,
                public people: number, public status: ProjectStatus) {}
  }\<close>
\<close>

datatype ProjectStatus = ACTIVE | FINISHED

record Project =
  id' :: jsstring
  title :: jsstring
  description :: jsstring
  people :: jsnum
  status :: ProjectStatus

text \<open>
  \<^verbatim>\<open>
  get peopleCount(): string {
    if (this.project.people === 1) {
      return "1 person assigned";
    }
    return `${this.project.people} people assigned`;
  }\<close>
\<close>

definition peopleCount :: "(rat \<Rightarrow> nat \<times> int) \<Rightarrow> Project \<Rightarrow> jsstring" where
  "peopleCount shortest project =
     (if people project = Fin 1 then lit ''1 person assigned''
      else Number_toString shortest (people project) @ lit '' people assigned'')"

section \<open>The heap\<close>

text \<open>
  Projects are objects and project lists are arrays: both live in the heap and are
  handled through references. \<open>updateProject\<close> mutates a project in place, and the
  store hands arrays to its listeners, so the model keeps the heap explicit. A new object
  or array takes the next unused address.
\<close>

type_synonym ref = nat

record heap =
  objects :: "ref \<rightharpoonup> Project"
  arrays :: "ref \<rightharpoonup> ref list"
  fresh :: ref

definition empty_heap :: heap where
  "empty_heap = \<lparr>objects = Map.empty, arrays = Map.empty, fresh = 0\<rparr>"

definition new_object :: "Project \<Rightarrow> heap \<Rightarrow> ref \<times> heap" where
  "new_object p h = (fresh h, h\<lparr>objects := (objects h)(fresh h \<mapsto> p), fresh := Suc (fresh h)\<rparr>)"

definition new_array :: "ref list \<Rightarrow> heap \<Rightarrow> ref \<times> heap" where
  "new_array rs h = (fresh h, h\<lparr>arrays := (arrays h)(fresh h \<mapsto> rs), fresh := Suc (fresh h)\<rparr>)"

text \<open>
  The elements of the array at an address. JavaScript has no dangling reference; an
  address that holds no array reads as the empty list.
\<close>

definition elems :: "heap \<Rightarrow> ref \<Rightarrow> ref list" where
  "elems h a = (case arrays h a of Some rs \<Rightarrow> rs | None \<Rightarrow> [])"

text \<open>\<open>a.push(r)\<close> extends the array in place; \<open>a.slice()\<close> allocates a copy of it.\<close>

definition push :: "ref \<Rightarrow> ref \<Rightarrow> heap \<Rightarrow> heap" where
  "push a r h = h\<lparr>arrays := (arrays h)(a \<mapsto> elems h a @ [r])\<rparr>"

definition slice :: "ref \<Rightarrow> heap \<Rightarrow> ref \<times> heap" where
  "slice a h = new_array (elems h a) h"

text \<open>\<open>p.id === id\<close> and \<open>project.status = status\<close> on the object behind a reference.\<close>

definition has_id :: "heap \<Rightarrow> jsstring \<Rightarrow> ref \<Rightarrow> bool" where
  "has_id h i r = (case objects h r of Some p \<Rightarrow> id' p = i | None \<Rightarrow> False)"

definition set_status :: "ref \<Rightarrow> ProjectStatus \<Rightarrow> heap \<Rightarrow> heap" where
  "set_status r st h =
     (case objects h r of
        Some p \<Rightarrow> h\<lparr>objects := (objects h)(r \<mapsto> p\<lparr>status := st\<rparr>)\<rparr>
      | None \<Rightarrow> h)"

text \<open>The projects an array shows: the objects behind its elements, in order.\<close>

definition snapshot :: "heap \<Rightarrow> ref \<Rightarrow> Project list" where
  "snapshot h a = List.map_filter (objects h) (elems h a)"

section \<open>The state store\<close>

text \<open>
  \<^verbatim>\<open>
  type Listener<T> = (items: T[]) => void;
  class State<T> {
    protected listeners: Listener<T>[] = [];
    addListener(listenerFn: Listener<T>) { this.listeners.push(listenerFn); }
  }
  class ProjectState extends State<Project> {
    private projects: Project[] = [];
    ...
  }\<close>
  A listener is a callback of the caller's, of any type \<open>'l\<close>. The store never hands
  out its \<open>listeners\<close> array, which is a list here; \<open>projects\<close> is the address of the
  private array.
\<close>

record 'l ProjectState =
  listeners :: "'l list"
  projects :: ref

definition new_ProjectState :: "heap \<Rightarrow> 'l ProjectState \<times> heap" where
  "new_ProjectState h = (let (a, h') = new_array [] h in (\<lparr>listeners = [], projects = a\<rparr>, h'))"

definition addListener :: "'l \<Rightarrow> 'l ProjectState \<Rightarrow> 'l ProjectState" where
  "addListener listenerFn this = this\<lparr>listeners := listeners this @ [listenerFn]\<rparr>"

text \<open>
  \<^verbatim>\<open>this.listeners.forEach((listener) => listener(this.projects.slice()));\<close>
  The loop over the listeners. What a callback does is its own; the model records each
  call, the listener with the array it is given, in the order the calls are made. A
  listener reads the array and the projects and leaves the store's objects alone, as
  the listener of \<open>ProjectList\<close> does.
\<close>

fun notify :: "'l list \<Rightarrow> ref \<Rightarrow> heap \<Rightarrow> heap \<times> ('l \<times> ref) list" where
  "notify [] a h = (h, [])"
| "notify (listener # rest) a h =
     (let (copy, h1) = slice a h;
          (h2, calls) = notify rest a h1
      in (h2, (listener, copy) # calls))"

text \<open>
  \<^verbatim>\<open>
  addProject(title: string, description: string, numPeople: number) {
    const newProject = new Project(Math.random().toString(), title, description,
                                   numPeople, ProjectStatus.ACTIVE);
    this.projects.push(newProject);
    this.listeners.forEach((listener) => listener(this.projects.slice()));
  }\<close>
  \<open>Math.random()\<close> is the host's; the string \<open>Math.random().toString()\<close> evaluates to
  in this call is the argument \<open>randomId\<close>. \<open>created\<close> is the project the constructor
  call builds.
\<close>

definition created :: "jsstring \<Rightarrow> jsstring \<Rightarrow> jsstring \<Rightarrow> jsnum \<Rightarrow> Project" where
  "created randomId title' description' numPeople =
     \<lparr>id' = randomId, title = title', description = description', people = numPeople,
      status = ACTIVE\<rparr>"

definition addProject ::
  "jsstring \<Rightarrow> jsstring \<Rightarrow> jsstring \<Rightarrow> jsnum \<Rightarrow> 'l ProjectState \<Rightarrow> heap \<Rightarrow> heap \<times> ('l \<times> ref) list" where
  "addProject randomId title' description' numPeople this h =
     (let (newProject, h1) = new_object (created randomId title' description' numPeople) h;
          h2 = push (projects this) newProject h1
      in notify (listeners this) (projects this) h2)"

text \<open>
  \<^verbatim>\<open>
  updateProject(id: string, status: ProjectStatus) {
    const project = this.projects.filter((p) => p.id === id)[0];
    project.status = status;
    this.listeners.forEach((listener) => listener(this.projects.slice()));
  }\<close>
  The array \<open>filter\<close> returns is a temporary that nothing else sees: a list. When it is
  empty \<open>project\<close> is \<open>undefined\<close> and the assignment throws a \<open>TypeError\<close>. The result
  is how the call completes, the heap it leaves and the calls it made.
\<close>

datatype js_error = TypeError

datatype completion = Normal | Throw js_error

definition updateProject ::
  "jsstring \<Rightarrow> ProjectStatus \<Rightarrow> 'l ProjectState \<Rightarrow> heap \<Rightarrow> completion \<times> heap \<times> ('l \<times> ref) list" where
  "updateProject projectId newStatus this h =
     (case filter (has_id h projectId) (elems h (projects this)) of
        [] \<Rightarrow> (Throw TypeError, h, [])
      | project # _ \<Rightarrow>
          (let h1 = set_status project newStatus h;
               (h2, calls) = notify (listeners this) (projects this) h1
           in (Normal, h2, calls)))"

text \<open>The projects of the store, in the order of its array.\<close>

definition project_list :: "'l ProjectState \<Rightarrow> heap \<Rightarrow> Project list" where
  "project_list this h = snapshot h (projects this)"

text \<open>
  The invariant of the store: its array is allocated, and holds references to allocated
  projects, each once.
\<close>

definition heap_ok :: "'l ProjectState \<Rightarrow> heap \<Rightarrow> bool" where
  "heap_ok this h =
     (projects this < fresh h \<and> arrays h (projects this) \<noteq> None
      \<and> list_all (\<lambda>r. r < fresh h \<and> objects h r \<noteq> None) (elems h (projects this))
      \<and> distinct (elems h (projects this)))"

text \<open>
  The states the store can be in: the constructor builds it, and its three methods are
  all that changes it.
\<close>

inductive reachable :: "'l ProjectState \<Rightarrow> heap \<Rightarrow> bool" where
  created_store: "new_ProjectState h0 = (this, h) \<Longrightarrow> reachable this h"
| listener_added: "reachable this h \<Longrightarrow> reachable (addListener l this) h"
| project_added:
    "reachable this h \<Longrightarrow> addProject randomId t d n this h = (h', calls) \<Longrightarrow> reachable this h'"
| project_updated:
    "reachable this h \<Longrightarrow> updateProject i st this h = (c, h', calls) \<Longrightarrow> reachable this h'"

text \<open>
  One notification pass, as the store's contract words it: each registered listener is
  called once, in the order of registration (a callback registered twice is there
  twice); each call gets an array of its own, allocated in this pass, which is not the
  store's array and holds the same references as the store's array does, in the same
  order. \<open>h\<close> is the heap before the mutation and \<open>h'\<close> the heap after the pass; the
  pass itself changes no project and no array that was there before.
\<close>

definition full_pass :: "'l ProjectState \<Rightarrow> heap \<Rightarrow> heap \<Rightarrow> ('l \<times> ref) list \<Rightarrow> bool" where
  "full_pass this h h' calls =
     (map fst calls = listeners this
      \<and> distinct (map snd calls)
      \<and> list_all (\<lambda>a. fresh h \<le> a \<and> a \<noteq> projects this \<and> elems h' a = elems h' (projects this))
           (map snd calls))"

text \<open>
  A sequence of \<open>addProject\<close> calls, each with the string its random draw gave, its
  title, its description and its number of people.
\<close>

fun addProjects ::
  "(jsstring \<times> jsstring \<times> jsstring \<times> jsnum) list \<Rightarrow> 'l ProjectState \<Rightarrow> heap \<Rightarrow> heap" where
  "addProjects [] this h = h"
| "addProjects ((randomId, title', description', numPeople) # rest) this h =
     addProjects rest this (fst (addProject randomId title' description' numPeople this h))"

section \<open>The program at start-up\<close>

text \<open>
  \<^verbatim>\<open>
  new ProjectInput();
  new ProjectList(ProjectStatus.ACTIVE);
  new ProjectList(ProjectStatus.FINISHED);\<close>
  Each list registers one listener with the store when it is built, the active list
  first; a listener is named by the status of its list. \<open>shed_heap\<close> and \<open>fence_heap\<close>
  are the heaps after one and after two submissions of the form.
\<close>

definition active_store :: "ProjectStatus ProjectState" where
  "active_store = addListener ACTIVE (fst (new_ProjectState empty_heap))"

definition app_store :: "ProjectStatus ProjectState" where
  "app_store = addListener FINISHED active_store"

definition app_heap :: heap where
  "app_heap = snd (new_ProjectState empty_heap :: ProjectStatus ProjectState \<times> heap)"

definition shed_heap :: heap where
  "shed_heap = fst (addProject (lit ''0.42'') (lit ''Build shed'') (lit ''construct a garden shed'')
     (Fin 2) app_store app_heap)"

definition fence_heap :: heap where
  "fence_heap = fst (addProject (lit ''0.77'') (lit ''Paint fence'') (lit ''two coats of paint'')
     (Fin 1) app_store shed_heap)"

section \<open>Results\<close>

subsection \<open>The cases of the specification\<close>

text \<open>
  C8: the validator on the four cases of the specification: the string of two spaces with
  \<open>required: true\<close> is rejected; \<open>"hi"\<close> with \<open>minLength: 5\<close> is rejected; the number 3 with
  \<open>min: 1, max: 5\<close> is accepted; the number 6 with \<open>max: 5\<close> is rejected.
\<close>

theorem validate_spec_cases:
  "validate shortest ((config_of (Str (lit ''  '')))\<lparr>required := Some True\<rparr>) = False
   \<and> validate shortest ((config_of (Str (lit ''hi'')))\<lparr>minLength := Some (Fin 5)\<rparr>) = False
   \<and> validate shortest ((config_of (Num (Fin 3)))\<lparr>min' := Some (Fin 1), max' := Some (Fin 5)\<rparr>) = True
   \<and> validate shortest ((config_of (Num (Fin 6)))\<lparr>max' := Some (Fin 5)\<rparr>) = False"
  by (simp add: validate_def config_of_def trim_def is_ws_def length_of_def lit_def)

subsection \<open>Blank strings\<close>

lemma ball_dropWhile: "(\<forall>c \<in> set (dropWhile P xs). P c) = (\<forall>c \<in> set xs. P c)"
  by (induction xs) auto

lemma trim_empty_iff: "(trim s = []) = blank s"
  by (simp add: trim_def blank_def list_all_iff ball_dropWhile)

lemma blank_append: "blank (a @ b) = (blank a \<and> blank b)"
  by (simp add: blank_def)

lemma digit_not_ws: "d < 10 \<Longrightarrow> \<not> is_ws (digit_char d)"
proof -
  assume "d < 10"
  then have "d = 0 \<or> d = 1 \<or> d = 2 \<or> d = 3 \<or> d = 4 \<or> d = 5 \<or> d = 6 \<or> d = 7 \<or> d = 8 \<or> d = 9"
    by arith
  then show ?thesis
    by (elim disjE) (simp_all add: digit_char_def is_ws_def)
qed

lemma digits_of_not_blank: "\<not> blank (digits_of n)"
proof (induction n rule: digits_of.induct)
  case (1 n)
  show ?case
  proof (cases "n < 10")
    case True
    then show ?thesis
      by (subst digits_of.simps) (simp add: blank_def digit_not_ws)
  next
    case False
    with 1 show ?thesis
      by (subst digits_of.simps) (simp add: blank_append)
  qed
qed

lemma literals_not_blank:
  "\<not> blank (lit ''.'')" "\<not> blank (lit ''0.'')" "\<not> blank (lit ''-'')" "\<not> blank (lit ''0'')"
  "\<not> blank (lit ''NaN'')" "\<not> blank (lit ''Infinity'')" "\<not> blank (lit ''-Infinity'')"
  by (simp_all add: blank_def is_ws_def lit_def)

lemma pos_toString_not_blank: "\<not> blank (pos_toString shortest x)"
  by (simp add: pos_toString_def Let_def blank_append digits_of_not_blank literals_not_blank
      split: prod.splits)

lemma Number_toString_not_blank: "\<not> blank (Number_toString shortest n)"
  by (cases n) (simp_all add: blank_append pos_toString_not_blank literals_not_blank)

subsection \<open>The validator\<close>

text \<open>
  Where every bound the configuration gives is truthy (neither \<open>0\<close> nor \<open>NaN\<close>), the
  validator returns what the contract asks.
\<close>

lemma validate_meets_contract:
  "\<forall>b \<in> set_option (minLength config) \<union> set_option (maxLength config)
       \<union> set_option (min' config) \<union> set_option (max' config). truthy b
   \<Longrightarrow> validate shortest config = constraints_pass shortest config"
  by (auto simp: validate_def constraints_pass_def trim_empty_iff
      split: option.splits jsvalue.splits bool.splits)

text \<open>
  C1: the claim asks that a specified bound such as \<open>min: 0\<close> is enforced. The validator
  tests the bound for truthiness, so it skips a bound of \<open>0\<close>: on the value \<open>-1\<close> with
  \<open>min: 0\<close> it returns true, while the constraint \<open>-1 >= 0\<close> fails.
\<close>

theorem validate_skips_zero_bound:
  "validate shortest ((config_of (Num (Fin (- 1))))\<lparr>min' := Some (Fin 0)\<rparr>) = True
   \<and> constraints_pass shortest ((config_of (Num (Fin (- 1))))\<lparr>min' := Some (Fin 0)\<rparr>) = False"
  by (simp add: validate_def constraints_pass_def config_of_def)

text \<open>
  C10: with \<open>required: true\<close> and no other constraint, every number passes, also \<open>0\<close>,
  the negative numbers, \<open>NaN\<close> and the infinities: the check is made on the number's
  string, which is never blank.
\<close>

theorem validate_required_number:
  "validate shortest ((config_of (Num n))\<lparr>required := Some True\<rparr>) = True"
  by (simp add: validate_def config_of_def trim_empty_iff Number_toString_not_blank)

subsection \<open>The notification pass\<close>

lemma slice_eq:
  "slice a h = (fresh h, h\<lparr>arrays := (arrays h)(fresh h \<mapsto> elems h a), fresh := Suc (fresh h)\<rparr>)"
  by (simp add: slice_def new_array_def)

lemma notify_listeners: "notify ls a h = (h', calls) \<Longrightarrow> map fst calls = ls"
  by (induction ls arbitrary: h h' calls) (auto simp: slice_eq split: prod.splits)

lemma notify_objects: "notify ls a h = (h', calls) \<Longrightarrow> objects h' = objects h"
  by (induction ls arbitrary: h h' calls) (auto simp: slice_eq split: prod.splits)

lemma notify_fresh: "notify ls a h = (h', calls) \<Longrightarrow> fresh h' = fresh h + length ls"
  by (induction ls arbitrary: h h' calls) (auto simp: slice_eq split: prod.splits)

lemma notify_copies:
  "notify ls a h = (h', calls) \<Longrightarrow> map snd calls = [fresh h ..< fresh h + length ls]"
proof (induction ls arbitrary: h h' calls)
  case Nil
  then show ?case by simp
next
  case (Cons l ls)
  let ?h1 = "h\<lparr>arrays := (arrays h)(fresh h \<mapsto> elems h a), fresh := Suc (fresh h)\<rparr>"
  from Cons.prems obtain cs where rest: "notify ls a ?h1 = (h', cs)"
    and calls: "calls = (l, fresh h) # cs"
    by (auto simp: slice_eq split: prod.splits)
  from Cons.IH [OF rest] have cs: "map snd cs = [Suc (fresh h) ..< Suc (fresh h) + length ls]"
    by simp
  have "[fresh h ..< fresh h + length (l # ls)] = fresh h # [Suc (fresh h) ..< Suc (fresh h) + length ls]"
    by (subst upt_rec) simp
  with calls cs show ?case
    by (simp only: list.map snd_conv)
qed

lemma notify_arrays:
  "notify ls a h = (h', calls) \<Longrightarrow> a < fresh h \<Longrightarrow>
   arrays h' r = (if fresh h \<le> r \<and> r < fresh h + length ls then Some (elems h a) else arrays h r)"
proof (induction ls arbitrary: h h' calls)
  case Nil
  then show ?case by auto
next
  case (Cons l ls)
  let ?h1 = "h\<lparr>arrays := (arrays h)(fresh h \<mapsto> elems h a), fresh := Suc (fresh h)\<rparr>"
  from Cons.prems(1) obtain cs where rest: "notify ls a ?h1 = (h', cs)"
    by (auto simp: slice_eq split: prod.splits)
  from Cons.prems(2) have "a < fresh ?h1" and same: "elems ?h1 a = elems h a"
    by (simp_all add: elems_def)
  from Cons.IH [OF rest this(1)] same show ?case
    by auto
qed

lemma map_filter_append: "List.map_filter f (xs @ ys) = List.map_filter f xs @ List.map_filter f ys"
  by (simp add: List.map_filter_def)

lemma map_filter_upd_other:
  "r \<notin> set es \<Longrightarrow> List.map_filter (m(r \<mapsto> p)) es = List.map_filter m es"
  by (induction es) (auto split: option.splits)

lemma addProject_notify:
  "addProject rid t d n this h = (h', calls) \<Longrightarrow>
   notify (listeners this) (projects this)
     (h\<lparr>objects := (objects h)(fresh h \<mapsto> created rid t d n), fresh := Suc (fresh h),
        arrays := (arrays h)(projects this \<mapsto> elems h (projects this) @ [fresh h])\<rparr>) = (h', calls)"
  by (simp add: addProject_def new_object_def push_def elems_def)

lemma addProject_effect:
  assumes ok: "heap_ok this h" and run: "addProject rid t d n this h = (h', calls)"
  shows "objects h' = (objects h)(fresh h \<mapsto> created rid t d n)"
    and "fresh h' = Suc (fresh h) + length (listeners this)"
    and "map fst calls = listeners this"
    and "map snd calls = [Suc (fresh h) ..< Suc (fresh h) + length (listeners this)]"
    and "arrays h' r =
          (if r = projects this \<or> (Suc (fresh h) \<le> r \<and> r < Suc (fresh h) + length (listeners this))
           then Some (elems h (projects this) @ [fresh h]) else arrays h r)"
proof -
  let ?a = "projects this"
  let ?h2 = "h\<lparr>objects := (objects h)(fresh h \<mapsto> created rid t d n), fresh := Suc (fresh h),
        arrays := (arrays h)(?a \<mapsto> elems h ?a @ [fresh h])\<rparr>"
  note n = addProject_notify [OF run]
  from ok have a: "?a < fresh ?h2" by (simp add: heap_ok_def)
  show "objects h' = (objects h)(fresh h \<mapsto> created rid t d n)"
    using notify_objects [OF n] by simp
  show "fresh h' = Suc (fresh h) + length (listeners this)"
    using notify_fresh [OF n] by simp
  show "map fst calls = listeners this"
    using notify_listeners [OF n] .
  show "map snd calls = [Suc (fresh h) ..< Suc (fresh h) + length (listeners this)]"
    using notify_copies [OF n] by simp
  show "arrays h' r =
          (if r = projects this \<or> (Suc (fresh h) \<le> r \<and> r < Suc (fresh h) + length (listeners this))
           then Some (elems h (projects this) @ [fresh h]) else arrays h r)"
    using notify_arrays [OF n a, of r] by (auto simp: elems_def)
qed

lemma addProject_elems:
  assumes ok: "heap_ok this h" and run: "addProject rid t d n this h = (h', calls)"
  shows "elems h' (projects this) = elems h (projects this) @ [fresh h]"
  using addProject_effect(5) [OF ok run, of "projects this"] by (simp add: elems_def)

lemma elems_below_fresh:
  "heap_ok this h \<Longrightarrow> r \<in> set (elems h (projects this)) \<Longrightarrow> r < fresh h \<and> objects h r \<noteq> None"
  by (auto simp: heap_ok_def list_all_iff)

lemma addProject_project_list:
  assumes ok: "heap_ok this h" and run: "addProject rid t d n this h = (h', calls)"
  shows "project_list this h' = project_list this h @ [created rid t d n]"
proof -
  have "fresh h \<notin> set (elems h (projects this))"
    using elems_below_fresh [OF ok] by blast
  then show ?thesis
    by (simp add: project_list_def snapshot_def addProject_elems [OF ok run]
        addProject_effect(1) [OF ok run] map_filter_append map_filter_upd_other)
qed

lemma addProject_heap_ok:
  assumes ok: "heap_ok this h" and run: "addProject rid t d n this h = (h', calls)"
  shows "heap_ok this h'"
proof -
  have new: "fresh h \<notin> set (elems h (projects this))"
    using elems_below_fresh [OF ok] by blast
  have old: "\<forall>r \<in> set (elems h (projects this)). r < fresh h \<and> objects h r \<noteq> None"
    using elems_below_fresh [OF ok] by blast
  from ok have "projects this < fresh h" "distinct (elems h (projects this))"
    by (simp_all add: heap_ok_def)
  with new old show ?thesis
    unfolding heap_ok_def addProject_elems [OF ok run] addProject_effect(1,2) [OF ok run]
    using addProject_effect(5) [OF ok run, of "projects this"]
    by (auto simp: list_all_iff)
qed

lemma addListener_heap_ok: "heap_ok (addListener l this) h = heap_ok this h"
  by (simp add: heap_ok_def addListener_def)

lemma new_ProjectState_heap_ok: "new_ProjectState h = (this, h') \<Longrightarrow> heap_ok this h'"
  by (auto simp: new_ProjectState_def new_array_def heap_ok_def elems_def)

subsection \<open>The people count\<close>

lemma Number_toString_nat:
  "n < 2 ^ 53 \<Longrightarrow> Number_toString shortest (Fin (of_nat n)) = digits_of n"
  by (cases "n = 0") (simp_all add: pos_toString_def digits_of.simps [of 0] digit_char_def lit_def)

text \<open>
  C9: the text an item shows for the people of its project is \<open>1 person assigned\<close> when
  the count is exactly 1, and the count followed by \<open> people assigned\<close> otherwise; for a
  natural number below \<open>2^53\<close> the count is written with its decimal digits.
\<close>

theorem peopleCount_text:
  "(people p = Fin 1 \<longrightarrow> peopleCount shortest p = lit ''1 person assigned'')
   \<and> (people p \<noteq> Fin 1 \<longrightarrow>
        peopleCount shortest p = Number_toString shortest (people p) @ lit '' people assigned'')
   \<and> (\<forall>n::nat. people p = Fin (of_nat n) \<longrightarrow> n \<noteq> 1 \<longrightarrow> n < 2 ^ 53 \<longrightarrow>
        peopleCount shortest p = digits_of n @ lit '' people assigned'')"
proof -
  have "peopleCount shortest p = digits_of n @ lit '' people assigned''"
    if "people p = Fin (of_nat n)" "n \<noteq> 1" "n < 2 ^ 53" for n :: nat
    using that Number_toString_nat [of n shortest]
    by (simp add: peopleCount_def del: Number_toString.simps)
  then show ?thesis
    by (simp add: peopleCount_def)
qed

theorem peopleCount_text_witness:
  "\<forall>shortest.
     peopleCount shortest (created (lit ''0.77'') (lit ''Paint fence'') (lit ''two coats of paint'') (Fin 1))
       = lit ''1 person assigned''
   \<and> peopleCount shortest (created (lit ''0.42'') (lit ''Build shed'') (lit ''construct a garden shed'') (Fin 2))
       = lit ''2 people assigned''
   \<and> peopleCount shortest (created (lit ''0.42'') (lit ''Build shed'') (lit ''construct a garden shed'') NaN)
       = lit ''NaN people assigned''"
proof
  fix shortest :: "rat \<Rightarrow> nat \<times> int"
  let ?one = "created (lit ''0.77'') (lit ''Paint fence'') (lit ''two coats of paint'') (Fin 1)"
  let ?two = "created (lit ''0.42'') (lit ''Build shed'') (lit ''construct a garden shed'') (Fin 2)"
  let ?nan = "created (lit ''0.42'') (lit ''Build shed'') (lit ''construct a garden shed'') NaN"
  have two: "people ?two = Fin (of_nat 2)" and "(2::nat) \<noteq> 1" "(2::nat) < 2 ^ 53"
    by (simp_all add: created_def)
  with peopleCount_text [of ?two shortest]
  have "peopleCount shortest ?two = digits_of 2 @ lit '' people assigned''"
    by blast
  moreover have "peopleCount shortest ?one = lit ''1 person assigned''"
    using peopleCount_text [of ?one shortest] by (simp add: created_def)
  moreover have "peopleCount shortest ?nan = lit ''NaN people assigned''"
    using peopleCount_text [of ?nan shortest] by (simp add: created_def lit_def)
  ultimately show "peopleCount shortest ?one = lit ''1 person assigned''
    \<and> peopleCount shortest ?two = lit ''2 people assigned''
    \<and> peopleCount shortest ?nan = lit ''NaN people assigned''"
    by (simp add: digits_of.simps [of 2] digit_char_def lit_def)
qed

subsection \<open>Updating a project\<close>

lemma has_id_in_snapshot:
  "has_id h i r \<Longrightarrow> r \<in> set es \<Longrightarrow> i \<in> id' ` set (List.map_filter (objects h) es)"
  by (induction es) (auto simp: has_id_def split: option.splits)

lemma no_match_filter:
  "i \<notin> id' ` set (project_list this h) \<Longrightarrow> filter (has_id h i) (elems h (projects this)) = []"
  unfolding project_list_def snapshot_def filter_empty_conv
  using has_id_in_snapshot by blast

lemma snapshot_has_match:
  "i \<in> id' ` set (List.map_filter (objects h) es) \<Longrightarrow> \<exists>r \<in> set es. has_id h i r"
  by (induction es) (auto simp: has_id_def split: option.splits)

lemma match_filter:
  "i \<in> id' ` set (project_list this h) \<Longrightarrow>
   \<exists>y ys. filter (has_id h i) (elems h (projects this)) = y # ys"
proof -
  assume "i \<in> id' ` set (project_list this h)"
  then obtain r where "r \<in> set (elems h (projects this))" "has_id h i r"
    using snapshot_has_match unfolding project_list_def snapshot_def by blast
  then have "filter (has_id h i) (elems h (projects this)) \<noteq> []"
    by (auto simp: filter_empty_conv)
  then show ?thesis
    by (cases "filter (has_id h i) (elems h (projects this))") auto
qed

lemma updateProject_effect:
  assumes hit: "filter (has_id h i) (elems h (projects this)) = y # ys"
    and run: "updateProject i st this h = (c, h', calls)"
    and a: "projects this < fresh h"
  shows "c = Normal"
    and "objects h' = objects (set_status y st h)"
    and "fresh h' = fresh h + length (listeners this)"
    and "map fst calls = listeners this"
    and "map snd calls = [fresh h ..< fresh h + length (listeners this)]"
    and "arrays h' r =
          (if fresh h \<le> r \<and> r < fresh h + length (listeners this)
           then Some (elems h (projects this)) else arrays h r)"
proof -
  from hit run have c: "c = Normal"
    and n: "notify (listeners this) (projects this) (set_status y st h) = (h', calls)"
    by (auto simp: updateProject_def Let_def split: prod.splits)
  have same: "arrays (set_status y st h) = arrays h" "fresh (set_status y st h) = fresh h"
    by (simp_all add: set_status_def split: option.splits)
  then have e: "elems (set_status y st h) = elems h"
    by (simp add: elems_def fun_eq_iff)
  show "c = Normal" by (rule c)
  show "objects h' = objects (set_status y st h)"
    using notify_objects [OF n] .
  show "fresh h' = fresh h + length (listeners this)"
    using notify_fresh [OF n] same by simp
  show "map fst calls = listeners this"
    using notify_listeners [OF n] .
  show "map snd calls = [fresh h ..< fresh h + length (listeners this)]"
    using notify_copies [OF n] same by simp
  show "arrays h' r =
          (if fresh h \<le> r \<and> r < fresh h + length (listeners this)
           then Some (elems h (projects this)) else arrays h r)"
    using notify_arrays [OF n, of r] a same e by simp
qed

lemma map_filter_upd_there:
  "m y = Some p \<Longrightarrow> y \<notin> set us \<Longrightarrow> y \<notin> set vs \<Longrightarrow>
   List.map_filter (m(y \<mapsto> q)) (us @ y # vs) = List.map_filter m us @ q # List.map_filter m vs"
  by (simp add: map_filter_append map_filter_upd_other)

lemma no_id_before:
  "\<forall>u \<in> set us. \<not> has_id h i u \<Longrightarrow> \<forall>q \<in> set (List.map_filter (objects h) us). id' q \<noteq> i"
  by (induction us) (auto simp: has_id_def split: option.splits)

subsection \<open>The invariant\<close>

text \<open>
  \<open>heap_ok\<close> holds of every state the store reaches, so the results below, which
  assume it, speak of all of them.
\<close>

lemma updateProject_heap_ok:
  assumes ok: "heap_ok this h" and run: "updateProject i st this h = (c, h', calls)"
  shows "heap_ok this h'"
proof (cases "filter (has_id h i) (elems h (projects this))")
  case Nil
  with run have "h' = h" by (simp add: updateProject_def)
  with ok show ?thesis by simp
next
  case (Cons y ys)
  from ok have a: "projects this < fresh h" by (simp add: heap_ok_def)
  note eff = updateProject_effect [OF Cons run a]
  have arr: "arrays h' (projects this) = arrays h (projects this)"
    using eff(6) [of "projects this"] a by simp
  then have el: "elems h' (projects this) = elems h (projects this)"
    by (simp add: elems_def)
  have "objects h r \<noteq> None \<Longrightarrow> objects h' r \<noteq> None" for r
    unfolding eff(2) by (simp add: set_status_def split: option.splits)
  with ok show ?thesis
    unfolding heap_ok_def el arr eff(3) by (auto simp: list_all_iff)
qed

lemma reachable_heap_ok: "reachable this h \<Longrightarrow> heap_ok this h"
proof (induction rule: reachable.induct)
  case (created_store h0 this h)
  then show ?case by (rule new_ProjectState_heap_ok)
next
  case (listener_added this h l)
  then show ?case by (simp add: addListener_heap_ok)
next
  case (project_added this h randomId t d n h' calls)
  then show ?case by (blast intro: addProject_heap_ok)
next
  case (project_updated this h i st c h' calls)
  then show ?case by (blast intro: updateProject_heap_ok)
qed

lemma addProject_heap_ok': "heap_ok this h \<Longrightarrow> heap_ok this (fst (addProject rid t d n this h))"
  using addProject_heap_ok [of this h rid t d n] by (cases "addProject rid t d n this h") auto

lemma addProject_project_list':
  "heap_ok this h \<Longrightarrow>
   project_list this (fst (addProject rid t d n this h)) = project_list this h @ [created rid t d n]"
  using addProject_project_list [of this h rid t d n] by (cases "addProject rid t d n this h") auto

lemma addProjects_ids:
  "heap_ok this h \<Longrightarrow>
   map id' (project_list this (addProjects reqs this h)) = map id' (project_list this h) @ map fst reqs"
proof (induction reqs arbitrary: h)
  case Nil
  then show ?case by simp
next
  case (Cons req reqs)
  obtain rid t d n where req: "req = (rid, t, d, n)"
    by (cases req) auto
  from Cons.prems have "heap_ok this (fst (addProject rid t d n this h))"
    by (rule addProject_heap_ok')
  from Cons.IH [OF this] show ?case
    by (simp add: req addProject_project_list' [OF Cons.prems] created_def)
qed

subsection \<open>Full passes\<close>

lemma addProject_full_pass:
  assumes ok: "heap_ok this h" and run: "addProject rid t d n this h = (h', calls)"
  shows "full_pass this h h' calls"
proof -
  note eff = addProject_effect [OF ok run]
  from ok have a: "projects this < fresh h" by (simp add: heap_ok_def)
  have "\<forall>r \<in> set (map snd calls). fresh h \<le> r \<and> r \<noteq> projects this
          \<and> elems h' r = elems h' (projects this)"
    unfolding eff(4) using a eff(5) by (auto simp: elems_def)
  then show ?thesis
    unfolding full_pass_def list_all_iff using eff(3) eff(4) by simp
qed

lemma updateProject_full_pass:
  assumes ok: "heap_ok this h" and hit: "filter (has_id h i) (elems h (projects this)) = y # ys"
    and run: "updateProject i st this h = (c, h', calls)"
  shows "c = Normal \<and> full_pass this h h' calls"
proof -
  from ok have a: "projects this < fresh h" by (simp add: heap_ok_def)
  note eff = updateProject_effect [OF hit run a]
  have "\<forall>r \<in> set (map snd calls). fresh h \<le> r \<and> r \<noteq> projects this
          \<and> elems h' r = elems h' (projects this)"
    unfolding eff(5) using a eff(6) by (auto simp: elems_def)
  then show ?thesis
    unfolding full_pass_def list_all_iff using eff(1) eff(4) eff(5) by simp
qed

lemma full_pass_snapshot:
  "full_pass this h h' calls \<Longrightarrow> a \<in> snd ` set calls \<Longrightarrow>
   fresh h \<le> a \<and> snapshot h' a = project_list this h'"
  by (auto simp: full_pass_def list_all_iff project_list_def snapshot_def)

lemma last_call:
  "map fst calls = ls @ [l] \<Longrightarrow> fst (last calls) = l \<and> last calls \<in> set calls"
proof -
  assume m: "map fst calls = ls @ [l]"
  then have ne: "calls \<noteq> []" by auto
  then have "fst (last calls) = last (map fst calls)" by (simp add: last_map)
  with m ne show ?thesis by simp
qed

lemma calls_to_new_listener:
  "map fst calls = ls @ [l] \<Longrightarrow> l \<notin> set ls \<Longrightarrow> length (filter (\<lambda>c. fst c = l) calls) = 1"
proof -
  assume m: "map fst calls = ls @ [l]" and new: "l \<notin> set ls"
  have "length (filter (\<lambda>c. fst c = l) calls) = length (filter (\<lambda>x. x = l) (map fst calls))"
    by (simp add: filter_map comp_def)
  also have "\<dots> = 1"
  proof -
    from new have "filter (\<lambda>x. x = l) ls = []"
      by (induction ls) auto
    then show ?thesis by (simp add: m)
  qed
  finally show ?thesis .
qed

subsection \<open>The program at start-up, and after one and two submissions\<close>

lemma app_store_active: "app_store = addListener FINISHED active_store"
  by (simp add: app_store_def)

lemma app_heap_ok: "heap_ok app_store app_heap"
  unfolding app_store_def active_store_def app_heap_def addListener_heap_ok
  by (rule new_ProjectState_heap_ok) simp

lemma shed_heap_ok: "heap_ok app_store shed_heap"
  unfolding shed_heap_def by (rule addProject_heap_ok' [OF app_heap_ok])

lemma fence_heap_ok: "heap_ok app_store fence_heap"
  unfolding fence_heap_def by (rule addProject_heap_ok' [OF shed_heap_ok])

lemma app_projects: "project_list app_store app_heap = []"
  by (simp add: project_list_def snapshot_def app_store_def active_store_def app_heap_def new_ProjectState_def
      new_array_def addListener_def elems_def empty_heap_def)

lemma shed_projects:
  "project_list app_store shed_heap =
     [created (lit ''0.42'') (lit ''Build shed'') (lit ''construct a garden shed'') (Fin 2)]"
  unfolding shed_heap_def by (simp add: addProject_project_list' [OF app_heap_ok] app_projects)

lemma fence_projects:
  "project_list app_store fence_heap =
     [created (lit ''0.42'') (lit ''Build shed'') (lit ''construct a garden shed'') (Fin 2),
      created (lit ''0.77'') (lit ''Paint fence'') (lit ''two coats of paint'') (Fin 1)]"
  unfolding fence_heap_def by (simp add: addProject_project_list' [OF shed_heap_ok] shed_projects)

lemmas run_defs = app_store_def active_store_def app_heap_def shed_heap_def fence_heap_def new_ProjectState_def
  new_array_def new_object_def addListener_def empty_heap_def addProject_def push_def elems_def
  slice_def updateProject_def has_id_def set_status_def created_def

lemma shed_calls:
  "snd (addProject (lit ''0.42'') (lit ''Build shed'') (lit ''construct a garden shed'')
     (Fin 2) app_store app_heap) = [(ACTIVE, 2), (FINISHED, 3)]"
  by (simp add: run_defs)

lemma shed_update:
  "fst (updateProject (lit ''0.42'') FINISHED app_store shed_heap) = Normal \<and>
   snd (snd (updateProject (lit ''0.42'') FINISHED app_store shed_heap)) = [(ACTIVE, 4), (FINISHED, 5)]"
  by (simp add: run_defs lit_def)

subsection \<open>The claims about the store\<close>

text \<open>
  C4: \<open>addProject\<close> makes the list of projects one longer: the new project, with the
  title, the description and the people of the call and the status \<open>ACTIVE\<close>, stands at
  the end, and the projects stored before stand unchanged in front of it.
\<close>

theorem addProject_appends:
  "heap_ok this h \<Longrightarrow>
   project_list this (fst (addProject randomId t d n this h))
     = project_list this h @ [\<lparr>id' = randomId, title = t, description = d, people = n, status = ACTIVE\<rparr>]
   \<and> length (project_list this (fst (addProject randomId t d n this h)))
     = Suc (length (project_list this h))"
  by (simp add: addProject_project_list' created_def)

theorem addProject_appends_witness:
  "heap_ok app_store shed_heap
   \<and> project_list app_store fence_heap =
       [\<lparr>id' = lit ''0.42'', title = lit ''Build shed'', description = lit ''construct a garden shed'',
         people = Fin 2, status = ACTIVE\<rparr>,
        \<lparr>id' = lit ''0.77'', title = lit ''Paint fence'', description = lit ''two coats of paint'',
         people = Fin 1, status = ACTIVE\<rparr>]
   \<and> length (project_list app_store fence_heap) = Suc (length (project_list app_store shed_heap))"
  using addProject_appends [OF shed_heap_ok, of "lit ''0.77''" "lit ''Paint fence''"
      "lit ''two coats of paint''" "Fin 1"] shed_heap_ok
  by (simp add: fence_heap_def [symmetric] shed_projects created_def)

text \<open>
  C5 as claimed fails: the store takes the random draw as the id and checks nothing, so
  two submissions whose draws print alike leave two projects with one id.
\<close>

theorem duplicate_draw_duplicate_id:
  "\<not> distinct (map id' (project_list app_store
       (addProjects [(lit ''0.5'', lit ''Build shed'', lit ''construct a garden shed'', Fin 2),
                     (lit ''0.5'', lit ''Paint fence'', lit ''two coats of paint'', Fin 1)]
          app_store app_heap)))"
  unfolding addProjects_ids [OF app_heap_ok] app_projects by simp

text \<open>
  C5, amended: after any sequence of \<open>addProject\<close> calls the ids in the store are the ids
  stored before followed by the strings drawn, in the order of the calls; so where these
  strings differ from one another and from the ids stored before, all ids in the store
  are distinct, and each new id differs from every id already there.
\<close>

theorem ids_follow_the_draws:
  assumes "heap_ok this h"
  shows "map id' (project_list this (addProjects reqs this h))
           = map id' (project_list this h) @ map fst reqs
    \<and> (distinct (map id' (project_list this h) @ map fst reqs)
         \<longrightarrow> distinct (map id' (project_list this (addProjects reqs this h))))"
  using addProjects_ids [OF assms] by simp

theorem ids_follow_the_draws_witness:
  "heap_ok app_store app_heap
   \<and> map id' (project_list app_store
       (addProjects [(lit ''0.42'', lit ''Build shed'', lit ''construct a garden shed'', Fin 2),
                     (lit ''0.77'', lit ''Paint fence'', lit ''two coats of paint'', Fin 1)]
          app_store app_heap)) = [lit ''0.42'', lit ''0.77'']
   \<and> distinct (map id' (project_list app_store
       (addProjects [(lit ''0.42'', lit ''Build shed'', lit ''construct a garden shed'', Fin 2),
                     (lit ''0.77'', lit ''Paint fence'', lit ''two coats of paint'', Fin 1)]
          app_store app_heap)))"
proof -
  have "distinct [lit ''0.42'', lit ''0.77'']"
    by (simp add: lit_def)
  with ids_follow_the_draws [OF app_heap_ok,
      of "[(lit ''0.42'', lit ''Build shed'', lit ''construct a garden shed'', Fin 2),
           (lit ''0.77'', lit ''Paint fence'', lit ''two coats of paint'', Fin 1)]"]
    app_heap_ok
  show ?thesis
    by (simp add: app_projects)
qed

text \<open>
  C2: with an id that no project of the store has, the lookup of \<open>updateProject\<close> finds
  nothing and the call ends in a \<open>TypeError\<close>: it does not complete, the heap (and with
  it the list of projects) is as it was, and no listener was called.
\<close>

theorem updateProject_unknown_id:
  "i \<notin> id' ` set (project_list this h) \<Longrightarrow>
   filter (has_id h i) (elems h (projects this)) = []
   \<and> updateProject i st this h = (Throw TypeError, h, [])"
  by (simp add: updateProject_def no_match_filter)

theorem updateProject_unknown_id_witness:
  "lit ''0.5'' \<notin> id' ` set (project_list app_store fence_heap)
   \<and> updateProject (lit ''0.5'') FINISHED app_store fence_heap = (Throw TypeError, fence_heap, [])"
proof -
  have no: "lit ''0.5'' \<notin> id' ` set (project_list app_store fence_heap)"
    by (simp add: fence_projects created_def lit_def)
  from no updateProject_unknown_id [OF no] show ?thesis by simp
qed

text \<open>
  C3: with an id that a project of the store has, \<open>updateProject\<close> completes, and the
  list of projects differs from the one before in one place only: the first project with
  that id has the new status and its other fields as before. The projects in front of it
  and behind it, the length and the order are unchanged; so is the store's array.
\<close>

theorem updateProject_sets_first_match:
  assumes ok: "heap_ok this h" and there: "i \<in> id' ` set (project_list this h)"
  shows "\<exists>h' calls before p after.
           updateProject i st this h = (Normal, h', calls)
           \<and> project_list this h = before @ p # after
           \<and> (\<forall>q \<in> set before. id' q \<noteq> i) \<and> id' p = i
           \<and> project_list this h' = before @ p\<lparr>status := st\<rparr> # after
           \<and> elems h' (projects this) = elems h (projects this)"
proof -
  let ?es = "elems h (projects this)"
  from there obtain r where "r \<in> set ?es" "has_id h i r"
    using snapshot_has_match unfolding project_list_def snapshot_def by blast
  then have "filter (has_id h i) ?es \<noteq> []"
    by (auto simp: filter_empty_conv)
  then obtain y ys where hit: "filter (has_id h i) ?es = y # ys"
    by (cases "filter (has_id h i) ?es") auto
  then obtain us vs where es: "?es = us @ y # vs" and before: "\<forall>u \<in> set us. \<not> has_id h i u"
    and y: "has_id h i y"
    unfolding filter_eq_Cons_iff by blast
  from y obtain p where p: "objects h y = Some p" "id' p = i"
    by (auto simp: has_id_def split: option.splits)
  obtain c h' calls where run: "updateProject i st this h = (c, h', calls)"
    by (cases "updateProject i st this h") auto
  from ok have a: "projects this < fresh h" and d: "distinct ?es"
    by (simp_all add: heap_ok_def)
  note eff = updateProject_effect [OF hit run a]
  from d es have out: "y \<notin> set us" "y \<notin> set vs" by auto
  have objs: "objects h' = (objects h)(y \<mapsto> p\<lparr>status := st\<rparr>)"
    using eff(2) p by (simp add: set_status_def)
  have same: "elems h' (projects this) = ?es"
    using eff(6) [of "projects this"] a by (simp add: elems_def)
  have l0: "project_list this h = List.map_filter (objects h) us @ p # List.map_filter (objects h) vs"
    using p by (simp add: project_list_def snapshot_def es map_filter_append)
  have l1: "project_list this h' =
      List.map_filter (objects h) us @ p\<lparr>status := st\<rparr> # List.map_filter (objects h) vs"
    unfolding project_list_def snapshot_def same objs es
    using map_filter_upd_there [of "objects h" y p us vs, OF p(1) out] by simp
  from run eff(1) l0 l1 no_id_before [OF before] p(2) same show ?thesis
    by blast
qed

theorem updateProject_sets_first_match_witness:
  "heap_ok app_store fence_heap
   \<and> lit ''0.77'' \<in> id' ` set (project_list app_store fence_heap)
   \<and> (\<exists>h' calls. updateProject (lit ''0.77'') FINISHED app_store fence_heap = (Normal, h', calls)
        \<and> project_list app_store h' =
            [created (lit ''0.42'') (lit ''Build shed'') (lit ''construct a garden shed'') (Fin 2),
             (created (lit ''0.77'') (lit ''Paint fence'') (lit ''two coats of paint'') (Fin 1))
               \<lparr>status := FINISHED\<rparr>])"
proof -
  let ?shed = "created (lit ''0.42'') (lit ''Build shed'') (lit ''construct a garden shed'') (Fin 2)"
  let ?fence = "created (lit ''0.77'') (lit ''Paint fence'') (lit ''two coats of paint'') (Fin 1)"
  have there: "lit ''0.77'' \<in> id' ` set (project_list app_store fence_heap)"
    by (simp add: fence_projects created_def)
  from updateProject_sets_first_match [OF fence_heap_ok there, of FINISHED]
  obtain h' calls before p after where
    run: "updateProject (lit ''0.77'') FINISHED app_store fence_heap = (Normal, h', calls)"
    and split: "[?shed, ?fence] = before @ p # after"
    and first: "\<forall>q \<in> set before. id' q \<noteq> lit ''0.77''" "id' p = lit ''0.77''"
    and after: "project_list app_store h' = before @ p\<lparr>status := FINISHED\<rparr> # after"
    unfolding fence_projects by blast
  have ids: "id' ?shed \<noteq> lit ''0.77''" "id' ?fence = lit ''0.77''"
    by (simp_all add: created_def lit_def)
  from split first ids have "before = [?shed] \<and> p = ?fence \<and> after = []"
    by (cases before; cases after; cases "tl before") auto
  with after have "project_list app_store h' = [?shed, ?fence\<lparr>status := FINISHED\<rparr>]"
    by simp
  with run fence_heap_ok there show ?thesis
    by blast
qed

text \<open>
  C6: \<open>addListener\<close> puts the listener behind those registered before, and every
  mutation of the store, an \<open>addProject\<close> or an \<open>updateProject\<close> with an id the store
  has, makes one full pass: each listener is called once, in the order of registration,
  with a fresh array that is not the store's own and holds the references of the
  store's array after the mutation, all of them, in order.
\<close>

theorem every_mutation_notifies_all:
  assumes "heap_ok this h"
  shows "listeners (addListener l this) = listeners this @ [l]
    \<and> (\<forall>h' calls. addProject randomId t d n this h = (h', calls) \<longrightarrow> full_pass this h h' calls)
    \<and> (\<forall>c h' calls. i \<in> id' ` set (project_list this h) \<longrightarrow>
          updateProject i st this h = (c, h', calls) \<longrightarrow> c = Normal \<and> full_pass this h h' calls)"
proof (intro conjI allI impI)
  show "listeners (addListener l this) = listeners this @ [l]"
    by (simp add: addListener_def)
next
  fix h' calls
  assume "addProject randomId t d n this h = (h', calls)"
  with assms show "full_pass this h h' calls"
    by (rule addProject_full_pass)
next
  fix c h' calls
  assume "i \<in> id' ` set (project_list this h)" and run: "updateProject i st this h = (c, h', calls)"
  then obtain y ys where "filter (has_id h i) (elems h (projects this)) = y # ys"
    using match_filter by blast
  from updateProject_full_pass [OF assms this run]
  show "c = Normal" and "full_pass this h h' calls"
    by simp_all
qed

theorem every_mutation_notifies_all_witness:
  "heap_ok app_store app_heap \<and> heap_ok app_store shed_heap
   \<and> listeners app_store = [ACTIVE, FINISHED]
   \<and> snd (addProject (lit ''0.42'') (lit ''Build shed'') (lit ''construct a garden shed'') (Fin 2)
        app_store app_heap) = [(ACTIVE, 2), (FINISHED, 3)]
   \<and> full_pass app_store app_heap shed_heap [(ACTIVE, 2), (FINISHED, 3)]
   \<and> lit ''0.42'' \<in> id' ` set (project_list app_store shed_heap)
   \<and> updateProject (lit ''0.42'') FINISHED app_store shed_heap
        = (Normal, fst (snd (updateProject (lit ''0.42'') FINISHED app_store shed_heap)),
           [(ACTIVE, 4), (FINISHED, 5)])
   \<and> full_pass app_store shed_heap (fst (snd (updateProject (lit ''0.42'') FINISHED app_store shed_heap)))
        [(ACTIVE, 4), (FINISHED, 5)]"
proof -
  let ?u = "updateProject (lit ''0.42'') FINISHED app_store shed_heap"
  have add: "addProject (lit ''0.42'') (lit ''Build shed'') (lit ''construct a garden shed'') (Fin 2)
        app_store app_heap = (shed_heap, [(ACTIVE, 2), (FINISHED, 3)])"
    using shed_calls by (simp add: shed_heap_def prod_eq_iff)
  have upd: "?u = (Normal, fst (snd ?u), [(ACTIVE, 4), (FINISHED, 5)])"
    using shed_update by (simp add: prod_eq_iff)
  have there: "lit ''0.42'' \<in> id' ` set (project_list app_store shed_heap)"
    by (simp add: shed_projects created_def)
  have ls: "listeners app_store = [ACTIVE, FINISHED]"
    by (simp add: app_store_def active_store_def addListener_def new_ProjectState_def new_array_def)
  from every_mutation_notifies_all [OF app_heap_ok, of FINISHED "lit ''0.42''" "lit ''Build shed''"
      "lit ''construct a garden shed''" "Fin 2"] add
  have p1: "full_pass app_store app_heap shed_heap [(ACTIVE, 2), (FINISHED, 3)]"
    by blast
  from every_mutation_notifies_all [OF shed_heap_ok, of FINISHED _ _ _ _ "lit ''0.42''" FINISHED]
    there upd
  have p2: "full_pass app_store shed_heap (fst (snd ?u)) [(ACTIVE, 4), (FINISHED, 5)]"
    by blast
  from app_heap_ok shed_heap_ok ls add upd p1 p2 there show ?thesis
    by simp
qed

text \<open>
  C7: after a listener is registered, each of two \<open>addProject\<close> calls in a row
  notifies it, last in the pass; a listener not registered before gets these two calls
  and no other. The two arrays it is given are different; the first shows the
  projects of the store after the first call and still does after the second call; the
  second shows the same projects followed by the project the second call added.
\<close>

theorem two_adds_two_growing_snapshots:
  assumes ok: "heap_ok this h"
    and add1: "addProject r1 t1 d1 n1 (addListener l this) h = (h1, calls1)"
    and add2: "addProject r2 t2 d2 n2 (addListener l this) h1 = (h2, calls2)"
  shows "\<exists>a1 a2.
      map fst calls1 = listeners this @ [l] \<and> last calls1 = (l, a1)
    \<and> map fst calls2 = listeners this @ [l] \<and> last calls2 = (l, a2)
    \<and> a1 \<noteq> a2
    \<and> snapshot h1 a1 = project_list this h @ [created r1 t1 d1 n1]
    \<and> snapshot h2 a1 = snapshot h1 a1
    \<and> snapshot h2 a2 = snapshot h1 a1 @ [created r2 t2 d2 n2]
    \<and> (l \<notin> set (listeners this) \<longrightarrow> length (filter (\<lambda>c. fst c = l) (calls1 @ calls2)) = 2)"
proof -
  let ?S = "addListener l this"
  let ?a1 = "snd (last calls1)" and ?a2 = "snd (last calls2)"
  have ls: "listeners ?S = listeners this @ [l]" and pr: "projects ?S = projects this"
    by (simp_all add: addListener_def)
  from ok have ok0: "heap_ok ?S h" by (simp add: addListener_heap_ok)
  then have ok1: "heap_ok ?S h1" using add1 by (rule addProject_heap_ok)
  note eff1 = addProject_effect [OF ok0 add1] and eff2 = addProject_effect [OF ok1 add2]
  have m1: "map fst calls1 = listeners this @ [l]" using eff1(3) ls by simp
  have m2: "map fst calls2 = listeners this @ [l]" using eff2(3) ls by simp
  have l1: "last calls1 = (l, ?a1)" using last_call [OF m1] by (simp add: prod_eq_iff)
  have l2: "last calls2 = (l, ?a2)" using last_call [OF m2] by (simp add: prod_eq_iff)
  have in1: "?a1 \<in> snd ` set calls1" using last_call [OF m1] by blast
  have in2: "?a2 \<in> snd ` set calls2" using last_call [OF m2] by blast
  note p1 = full_pass_snapshot [OF addProject_full_pass [OF ok0 add1] in1]
  note p2 = full_pass_snapshot [OF addProject_full_pass [OF ok1 add2] in2]
  have range1: "?a1 < fresh h1" "?a1 \<noteq> projects ?S"
    using in1 eff1(2) ok0 unfolding set_map [symmetric] eff1(4) by (auto simp: heap_ok_def)
  then have ne: "?a1 \<noteq> ?a2" using p2 by auto
  have s1: "snapshot h1 ?a1 = project_list this h @ [created r1 t1 d1 n1]"
    using p1 addProject_project_list [OF ok0 add1] by (simp add: project_list_def pr)
  have s2: "snapshot h2 ?a2 = snapshot h1 ?a1 @ [created r2 t2 d2 n2]"
    using p1 p2 addProject_project_list [OF ok1 add2] by simp
  have arr: "elems h2 ?a1 = elems h1 ?a1"
    using eff2(5) [of ?a1] range1 by (simp add: elems_def)
  have "elems h1 ?a1 = elems h1 (projects ?S)"
    using addProject_full_pass [OF ok0 add1] in1 by (auto simp: full_pass_def list_all_iff)
  then have "fresh h1 \<notin> set (elems h1 ?a1)"
    using elems_below_fresh [OF ok1] by auto
  then have keep: "snapshot h2 ?a1 = snapshot h1 ?a1"
    by (simp add: snapshot_def arr eff2(1) map_filter_upd_other)
  have count: "l \<notin> set (listeners this) \<longrightarrow> length (filter (\<lambda>c. fst c = l) (calls1 @ calls2)) = 2"
    using calls_to_new_listener [OF m1] calls_to_new_listener [OF m2] by simp
  from m1 m2 l1 l2 ne s1 s2 keep count show ?thesis
    by blast
qed

theorem two_adds_two_growing_snapshots_witness:
  "heap_ok active_store app_heap
   \<and> snd (addProject (lit ''0.42'') (lit ''Build shed'') (lit ''construct a garden shed'') (Fin 2)
        (addListener FINISHED active_store) app_heap) = [(ACTIVE, 2), (FINISHED, 3)]
   \<and> snd (addProject (lit ''0.77'') (lit ''Paint fence'') (lit ''two coats of paint'') (Fin 1)
        (addListener FINISHED active_store) shed_heap) = [(ACTIVE, 5), (FINISHED, 6)]
   \<and> snapshot shed_heap 3
        = [created (lit ''0.42'') (lit ''Build shed'') (lit ''construct a garden shed'') (Fin 2)]
   \<and> snapshot fence_heap 3 = snapshot shed_heap 3
   \<and> snapshot fence_heap 6 = snapshot shed_heap 3
        @ [created (lit ''0.77'') (lit ''Paint fence'') (lit ''two coats of paint'') (Fin 1)]
   \<and> FINISHED \<notin> set (listeners active_store)
   \<and> length (filter (\<lambda>c. fst c = FINISHED) ([(ACTIVE, 2), (FINISHED, 3)] @ [(ACTIVE, 5), (FINISHED, 6)]))
        = 2"
proof -
  let ?c1 = "snd (addProject (lit ''0.42'') (lit ''Build shed'') (lit ''construct a garden shed'')
      (Fin 2) (addListener FINISHED active_store) app_heap)"
  let ?c2 = "snd (addProject (lit ''0.77'') (lit ''Paint fence'') (lit ''two coats of paint'')
      (Fin 1) (addListener FINISHED active_store) shed_heap)"
  have ok: "heap_ok active_store app_heap"
    using app_heap_ok by (simp add: app_store_active addListener_heap_ok)
  have c1: "?c1 = [(ACTIVE, 2), (FINISHED, 3)]"
    using shed_calls by (simp add: app_store_active)
  have c2: "?c2 = [(ACTIVE, 5), (FINISHED, 6)]"
    by (simp add: run_defs)
  have add1: "addProject (lit ''0.42'') (lit ''Build shed'') (lit ''construct a garden shed'')
      (Fin 2) (addListener FINISHED active_store) app_heap = (shed_heap, ?c1)"
    by (simp add: shed_heap_def app_store_active prod_eq_iff)
  have add2: "addProject (lit ''0.77'') (lit ''Paint fence'') (lit ''two coats of paint'')
      (Fin 1) (addListener FINISHED active_store) shed_heap = (fence_heap, ?c2)"
    by (simp add: fence_heap_def app_store_active prod_eq_iff)
  have empty: "project_list active_store app_heap = []"
    using app_projects by (simp add: project_list_def app_store_active addListener_def)
  have new: "FINISHED \<notin> set (listeners active_store)"
    by (simp add: active_store_def addListener_def new_ProjectState_def new_array_def)
  from two_adds_two_growing_snapshots [OF ok add1 add2] new obtain a1 a2 where
    "last ?c1 = (FINISHED, a1)" "last ?c2 = (FINISHED, a2)"
    "snapshot shed_heap a1 = project_list active_store app_heap
       @ [created (lit ''0.42'') (lit ''Build shed'') (lit ''construct a garden shed'') (Fin 2)]"
    "snapshot fence_heap a1 = snapshot shed_heap a1"
    "snapshot fence_heap a2 = snapshot shed_heap a1
       @ [created (lit ''0.77'') (lit ''Paint fence'') (lit ''two coats of paint'') (Fin 1)]"
    "length (filter (\<lambda>c. fst c = FINISHED) (?c1 @ ?c2)) = 2"
    by blast
  with c1 c2 empty ok new show ?thesis
    by simp
qed

end
